theory Spec2Isabelle
  imports Complex_Main
begin

section \<open>Data model\<close>

text \<open>
  The detector of \<^verbatim>\<open>tlpipe/rfi/sum_threshold.py\<close> keeps a 2-D array of samples
  \<^verbatim>\<open>self.vis\<close> and a boolean array \<^verbatim>\<open>self.vis_mask\<close> of the same shape.  A 2-D array is
  modelled as its shape \<open>(height, width)\<close> together with the store of its cells, indexed
  \<open>a y x\<close> for \<^verbatim>\<open>a[y, x]\<close>.  Samples are real numbers with exact arithmetic (rounding of
  floating point numbers is not modelled); counters and window lengths are Python
  integers.  \<^verbatim>\<open>self.lengths\<close> and \<^verbatim>\<open>self.thresholds\<close> are set up by the base class, which
  is not part of the sources, and are therefore fields of arbitrary content.
\<close>

type_synonym 'a array2 = "nat \<Rightarrow> nat \<Rightarrow> 'a"

record sum_threshold =
  height :: nat
  width :: nat
  vis :: "real array2"
  vis_mask :: "bool array2"
  lengths :: "int list"
  thresholds :: "real list"
  min_connected :: int

text \<open>The running sum \<^verbatim>\<open>sm\<close> and the running count \<^verbatim>\<open>cnt\<close> of a scan.\<close>

record running =
  sm :: real
  cnt :: int

subsection \<open>Array assignments\<close>

text \<open>\<^verbatim>\<open>mask[y, x] = True\<close>\<close>

definition set_cell :: "bool array2 \<Rightarrow> nat \<Rightarrow> nat \<Rightarrow> bool array2" where
  "set_cell msk y x = msk(y := (msk y)(x := True))"

text \<open>
  \<^verbatim>\<open>mask[y, a:b] = True\<close> on an array with \<open>w\<close> columns: a slice assignment writes the
  positions \<open>a \<le> x < b\<close> that exist, and silently drops the part of the slice beyond the
  end of the row.
\<close>

definition set_row_slice :: "nat \<Rightarrow> bool array2 \<Rightarrow> nat \<Rightarrow> nat \<Rightarrow> nat \<Rightarrow> bool array2" where
  "set_row_slice w msk y a b =
     (\<lambda>y' x'. if y' = y \<and> a \<le> x' \<and> x' < b \<and> x' < w then True else msk y' x')"

text \<open>\<^verbatim>\<open>mask[a:b, x] = True\<close> on an array with \<open>h\<close> rows.\<close>

definition set_col_slice :: "nat \<Rightarrow> bool array2 \<Rightarrow> nat \<Rightarrow> nat \<Rightarrow> nat \<Rightarrow> bool array2" where
  "set_col_slice h msk a b x =
     (\<lambda>y' x'. if x' = x \<and> a \<le> y' \<and> y' < b \<and> y' < h then True else msk y' x')"

section \<open>The scans\<close>

subsection \<open>Pieces shared by both axes\<close>

text \<open>
  \<^verbatim>\<open>if (not self.vis_mask[y, x]) and (self.vis[y, x] > threshold): self.vis_mask[y, x] = True\<close>,
  the body of the two nested loops of the branch \<^verbatim>\<open>length == 1\<close>; it reads and writes
  the live mask.
\<close>

definition point_test :: "real \<Rightarrow> real array2 \<Rightarrow> nat \<Rightarrow> nat \<Rightarrow> bool array2 \<Rightarrow> bool array2" where
  "point_test threshold v y x msk =
     (if \<not> msk y x \<and> v y x > threshold then set_cell msk y x else msk)"

text \<open>
  \<^verbatim>\<open>for y in xrange(height): for x in xrange(width): ...\<close>, the same text in both
  methods.
\<close>

definition point_pass :: "real \<Rightarrow> sum_threshold \<Rightarrow> bool array2" where
  "point_pass threshold s =
     fold (\<lambda>y. fold (\<lambda>x. point_test threshold (vis s) y x) [0..<width s])
       [0..<height s] (vis_mask s)"

text \<open>\<^verbatim>\<open>if not self.vis_mask[y, x]: sm += self.vis[y, x]; cnt += 1\<close>\<close>

definition add_sample :: "sum_threshold \<Rightarrow> nat \<Rightarrow> nat \<Rightarrow> running \<Rightarrow> running" where
  "add_sample s y x acc =
     (if \<not> vis_mask s y x then \<lparr>sm = sm acc + vis s y x, cnt = cnt acc + 1\<rparr> else acc)"

text \<open>\<^verbatim>\<open>if not self.vis_mask[y, x]: sm -= self.vis[y, x]; cnt -= 1\<close>\<close>

definition sub_sample :: "sum_threshold \<Rightarrow> nat \<Rightarrow> nat \<Rightarrow> running \<Rightarrow> running" where
  "sub_sample s y x acc =
     (if \<not> vis_mask s y x then \<lparr>sm = sm acc - vis s y x, cnt = cnt acc - 1\<rparr> else acc)"

text \<open>
  \<^verbatim>\<open>(cnt > 0) and (sm / cnt > threshold)\<close>: the sum of samples divided by the integer
  count, a division of real numbers.
\<close>

definition exceeds :: "real \<Rightarrow> running \<Rightarrow> bool" where
  "exceeds threshold acc \<longleftrightarrow> cnt acc > 0 \<and> sm acc / real_of_int (cnt acc) > threshold"

subsection \<open>Horizontal scan, \<^verbatim>\<open>length > 1\<close>\<close>

text \<open>
  \<^verbatim>\<open>sm, cnt, left, right = 0, 0, 0, 0\<close> followed by
  \<^verbatim>\<open>for right in xrange(length-1): if not self.vis_mask[y, right]: ...\<close>.
  The loop variable of a Python \<^verbatim>\<open>for\<close> is assigned at the start of every iteration
  and keeps the value of the last iteration when the loop ends; the pair returned is
  \<open>((sm, cnt), right)\<close> as the loop leaves them.
\<close>

definition h_prime :: "nat \<Rightarrow> sum_threshold \<Rightarrow> nat \<Rightarrow> running \<times> nat" where
  "h_prime len s y =
     fold (\<lambda>x (acc, right). (add_sample s y x acc, x)) [0..<len - 1] (\<lparr>sm = 0, cnt = 0\<rparr>, 0)"

text \<open>The loop \<^verbatim>\<open>while(right < width): ...\<close> of one row \<open>y\<close>, returning \<^verbatim>\<open>tmp_mask\<close>.\<close>

function h_while ::
  "nat \<Rightarrow> real \<Rightarrow> sum_threshold \<Rightarrow> nat \<Rightarrow> running \<Rightarrow> nat \<Rightarrow> nat \<Rightarrow> bool array2 \<Rightarrow> bool array2" where
  "h_while len threshold s y acc left right tmp_mask =
     (if right < width s then
        let acc1 = add_sample s y right acc;
            tmp1 = (if exceeds threshold acc1
                    then set_row_slice (width s) tmp_mask y left (left + len)
                    else tmp_mask);
            acc2 = sub_sample s y left acc1
        in h_while len threshold s y acc2 (left + 1) (right + 1) tmp1
      else tmp_mask)"
  by pat_completeness auto
termination
  by (relation "measure (\<lambda>(len, threshold, s, y, acc, left, right, tmp_mask). width s - right)") auto

declare h_while.simps [simp del]

text \<open>One iteration of \<^verbatim>\<open>for y in xrange(height)\<close>.\<close>

definition h_line :: "nat \<Rightarrow> real \<Rightarrow> sum_threshold \<Rightarrow> nat \<Rightarrow> bool array2 \<Rightarrow> bool array2" where
  "h_line len threshold s y tmp_mask =
     (case h_prime len s y of (acc, right) \<Rightarrow> h_while len threshold s y acc 0 right tmp_mask)"

text \<open>
  The values of \<^verbatim>\<open>left\<close>, \<^verbatim>\<open>sm\<close> and \<^verbatim>\<open>cnt\<close> at the successive executions of
  the line \<^verbatim>\<open># check\<close> in the \<^verbatim>\<open>while\<close> loop of row \<open>y\<close>: the same recursion as
  \<open>h_while\<close>, recording what is tested instead of acting on it.
\<close>

function h_tests :: "sum_threshold \<Rightarrow> nat \<Rightarrow> running \<Rightarrow> nat \<Rightarrow> nat \<Rightarrow> (nat \<times> running) list" where
  "h_tests s y acc left right =
     (if right < width s then
        let acc1 = add_sample s y right acc;
            acc2 = sub_sample s y left acc1
        in (left, acc1) # h_tests s y acc2 (left + 1) (right + 1)
      else [])"
  by pat_completeness auto
termination
  by (relation "measure (\<lambda>(s, y, acc, left, right). width s - right)") auto

declare h_tests.simps [simp del]

definition h_tested :: "nat \<Rightarrow> sum_threshold \<Rightarrow> nat \<Rightarrow> (nat \<times> running) list" where
  "h_tested len s y = (case h_prime len s y of (acc, right) \<Rightarrow> h_tests s y acc 0 right)"

definition horizontal_sum_threshold :: "int \<Rightarrow> real \<Rightarrow> sum_threshold \<Rightarrow> sum_threshold" where
  "horizontal_sum_threshold len threshold s =
     (if len > int (width s) then s
      else if len = 1 then s\<lparr>vis_mask := point_pass threshold s\<rparr>
      else if len > 1 then
        s\<lparr>vis_mask := fold (h_line (nat len) threshold s) [0..<height s] (vis_mask s)\<rparr>
      else s)"

subsection \<open>Vertical scan, \<^verbatim>\<open>length > 1\<close>\<close>

definition v_prime :: "nat \<Rightarrow> sum_threshold \<Rightarrow> nat \<Rightarrow> running \<times> nat" where
  "v_prime len s x =
     fold (\<lambda>y (acc, bottom). (add_sample s y x acc, y)) [0..<len - 1] (\<lparr>sm = 0, cnt = 0\<rparr>, 0)"

function v_while ::
  "nat \<Rightarrow> real \<Rightarrow> sum_threshold \<Rightarrow> nat \<Rightarrow> running \<Rightarrow> nat \<Rightarrow> nat \<Rightarrow> bool array2 \<Rightarrow> bool array2" where
  "v_while len threshold s x acc top' bottom tmp_mask =
     (if bottom < height s then
        let acc1 = add_sample s bottom x acc;
            tmp1 = (if exceeds threshold acc1
                    then set_col_slice (height s) tmp_mask top' (top' + len) x
                    else tmp_mask);
            acc2 = sub_sample s top' x acc1
        in v_while len threshold s x acc2 (top' + 1) (bottom + 1) tmp1
      else tmp_mask)"
  by pat_completeness auto
termination
  by (relation "measure (\<lambda>(len, threshold, s, x, acc, top', bottom, tmp_mask). height s - bottom)") auto

declare v_while.simps [simp del]

definition v_line :: "nat \<Rightarrow> real \<Rightarrow> sum_threshold \<Rightarrow> nat \<Rightarrow> bool array2 \<Rightarrow> bool array2" where
  "v_line len threshold s x tmp_mask =
     (case v_prime len s x of (acc, bottom) \<Rightarrow> v_while len threshold s x acc 0 bottom tmp_mask)"

definition vertical_sum_threshold :: "int \<Rightarrow> real \<Rightarrow> sum_threshold \<Rightarrow> sum_threshold" where
  "vertical_sum_threshold len threshold s =
     (if len > int (height s) then s
      else if len = 1 then s\<lparr>vis_mask := point_pass threshold s\<rparr>
      else if len > 1 then
        s\<lparr>vis_mask := fold (v_line (nat len) threshold s) [0..<width s] (vis_mask s)\<rparr>
      else s)"

subsection \<open>The schedule loop\<close>

definition execute_threshold :: "real \<Rightarrow> sum_threshold \<Rightarrow> sum_threshold" where
  "execute_threshold factor s =
     fold (\<lambda>(len, threshold) s'.
             vertical_sum_threshold len (factor * threshold)
               (horizontal_sum_threshold len (factor * threshold) s'))
       (zip (lengths s) (thresholds s)) s"

section \<open>Construction and \<^verbatim>\<open>execute\<close>\<close>

datatype error = NotImplementedError | ConfigurationError

text \<open>
  \<^verbatim>\<open>SumThreshold.__init__\<close>: the base class constructor, which is not part of the
  sources, sets up the arrays and the schedule; \<open>base\<close> is the object as it leaves it.
  Then \<^verbatim>\<open>self.min_connected = max(1, min_connected)\<close>.
\<close>

definition init :: "sum_threshold \<Rightarrow> int \<Rightarrow> sum_threshold" where
  "init base min_connected' = base\<lparr>min_connected := max 1 min_connected'\<rparr>"

text \<open>
  Modelled from the spec: \<^verbatim>\<open>CombinatorialThreshold.execute\<close>, the method of the base class
  that \<^verbatim>\<open>SumThreshold.execute\<close> calls first, is missing from the sources.  By sections 4.2
  and 7 of the specification, \<^verbatim>\<open>execute(sensitivity)\<close> fails fast with a configuration
  error when \<open>sensitivity \<le> 0\<close> and otherwise applies every schedule entry with its
  threshold scaled by \<open>sensitivity\<close>, which is the hook \<^verbatim>\<open>execute_threshold(factor)\<close>.
  A call returns the object as it is left and the exception raised, if any.
\<close>

definition base_execute :: "real \<Rightarrow> sum_threshold \<Rightarrow> sum_threshold \<times> error option" where
  "base_execute sensitivity s =
     (if sensitivity \<le> 0 then (s, Some ConfigurationError)
      else (execute_threshold sensitivity s, None))"

text \<open>
  \<^verbatim>\<open>SumThreshold.execute\<close>: an exception of the base method propagates; otherwise
  \<^verbatim>\<open>if self.min_connected > 1: raise NotImplementedError\<close>.
\<close>

definition execute :: "real \<Rightarrow> sum_threshold \<Rightarrow> sum_threshold \<times> error option" where
  "execute sensitivity s =
     (case base_execute sensitivity s of
        (s', Some e) \<Rightarrow> (s', Some e)
      | (s', None) \<Rightarrow>
          if min_connected s' > 1 then (s', Some NotImplementedError) else (s', None))"

text \<open>A sequence of method calls on one detector.\<close>

datatype call = Horizontal int real | Vertical int real | ExecuteThreshold real

fun run_call :: "call \<Rightarrow> sum_threshold \<Rightarrow> sum_threshold" where
  "run_call (Horizontal len threshold) s = horizontal_sum_threshold len threshold s"
| "run_call (Vertical len threshold) s = vertical_sum_threshold len threshold s"
| "run_call (ExecuteThreshold factor) s = execute_threshold factor s"

section \<open>Notions of the specification\<close>

text \<open>Transposition of an array and of the two arrays of a detector.\<close>

definition transpose_arr :: "'a array2 \<Rightarrow> 'a array2" where
  "transpose_arr a = (\<lambda>y x. a x y)"

definition transposed :: "sum_threshold \<Rightarrow> sum_threshold" where
  "transposed s =
     s\<lparr>height := width s, width := height s,
       vis := transpose_arr (vis s), vis_mask := transpose_arr (vis_mask s)\<rparr>"

text \<open>
  The sum and the number of the unmasked samples of the window \<open>[left, left + len)\<close> of
  row \<open>y\<close>, and the test of the mean of such a window.
\<close>

definition window_sum :: "sum_threshold \<Rightarrow> nat \<Rightarrow> nat \<Rightarrow> nat \<Rightarrow> real" where
  "window_sum s y left len = (\<Sum>x\<leftarrow>[left..<left + len]. if vis_mask s y x then 0 else vis s y x)"

definition window_count :: "sum_threshold \<Rightarrow> nat \<Rightarrow> nat \<Rightarrow> nat \<Rightarrow> int" where
  "window_count s y left len = (\<Sum>x\<leftarrow>[left..<left + len]. if vis_mask s y x then 0 else 1)"

definition window_exceeds :: "real \<Rightarrow> sum_threshold \<Rightarrow> nat \<Rightarrow> nat \<Rightarrow> nat \<Rightarrow> bool" where
  "window_exceeds threshold s y left len \<longleftrightarrow>
     exceeds threshold \<lparr>sm = window_sum s y left len, cnt = window_count s y left len\<rparr>"

text \<open>
  Position \<open>x\<close> of row \<open>y\<close> lies in a window of length \<open>len\<close> that is fully inside the
  row (its left edge is one of \<open>0, \<dots>, width - len\<close>) and whose unmasked mean exceeds
  the threshold.
\<close>

definition covered :: "nat \<Rightarrow> real \<Rightarrow> sum_threshold \<Rightarrow> nat \<Rightarrow> nat \<Rightarrow> bool" where
  "covered len threshold s y x \<longleftrightarrow>
     list_ex (\<lambda>left. left \<le> x \<and> x < left + len \<and> window_exceeds threshold s y left len)
       [0..<width s + 1 - len]"

subsection \<open>Concrete arrays\<close>

definition from_rows :: "'a list list \<Rightarrow> 'a array2" where
  "from_rows rows = (\<lambda>y x. rows ! y ! x)"

definition mask_rows :: "sum_threshold \<Rightarrow> bool list list" where
  "mask_rows s = map (\<lambda>y. map (vis_mask s y) [0..<width s]) [0..<height s]"

definition detector :: "real list list \<Rightarrow> bool list list \<Rightarrow> int list \<Rightarrow> real list \<Rightarrow> sum_threshold" where
  "detector vrows mrows ls ts =
     \<lparr>height = length vrows, width = length (hd vrows), vis = from_rows vrows,
      vis_mask = from_rows mrows, lengths = ls, thresholds = ts, min_connected = 1\<rparr>"

section \<open>Auxiliary notions of the proofs\<close>

text \<open>The body of the loop of \<open>execute_threshold\<close>: both scans of one schedule entry.\<close>

definition entry :: "real \<Rightarrow> int \<times> real \<Rightarrow> sum_threshold \<Rightarrow> sum_threshold" where
  "entry factor = (\<lambda>(len, threshold) s'.
             vertical_sum_threshold len (factor * threshold)
               (horizontal_sum_threshold len (factor * threshold) s'))"

text \<open>The detector with every sample that satisfies \<open>P\<close> flagged in addition.\<close>

definition flag_where :: "sum_threshold \<Rightarrow> (real \<Rightarrow> bool) \<Rightarrow> sum_threshold" where
  "flag_where s P =
     s\<lparr>vis_mask := \<lambda>y x. vis_mask s y x \<or> (y < height s \<and> x < width s \<and> P (vis s y x))\<rparr>"

text \<open>A window length for which neither scan runs its sliding window.\<close>

definition no_window :: "sum_threshold \<Rightarrow> int \<Rightarrow> bool" where
  "no_window s len \<longleftrightarrow> len \<le> 1 \<or> (int (width s) < len \<and> int (height s) < len)"

text \<open>
  What one execution of the lines after \<^verbatim>\<open># check\<close> does to the pending mask, given the
  values of \<^verbatim>\<open>left\<close>, \<^verbatim>\<open>sm\<close> and \<^verbatim>\<open>cnt\<close> at that moment.
\<close>

definition flag_test :: "nat \<Rightarrow> real \<Rightarrow> sum_threshold \<Rightarrow> nat \<Rightarrow> nat \<times> running \<Rightarrow> bool array2 \<Rightarrow> bool array2" where
  "flag_test len threshold s y = (\<lambda>(left, acc) tmp_mask.
     if exceeds threshold acc then set_row_slice (width s) tmp_mask y left (left + len)
     else tmp_mask)"

section \<open>Evaluation of folds over index ranges\<close>

lemma fold_upt_Suc: "fold f [0..<Suc n] a = f n (fold f [0..<n] a)"
  by simp

lemma point_row:
  "fold (point_test threshold v y) [0..<w] =
     (\<lambda>msk y' x'. msk y' x' \<or> (y' = y \<and> x' < w \<and> v y x' > threshold))"
proof (induction w)
  case 0
  show ?case by (simp add: fun_eq_iff)
next
  case (Suc w)
  have "fold (point_test threshold v y) [0..<Suc w] =
          point_test threshold v y w \<circ> fold (point_test threshold v y) [0..<w]"
    by (simp add: fun_eq_iff)
  also have "\<dots> = point_test threshold v y w \<circ>
      (\<lambda>msk y' x'. msk y' x' \<or> (y' = y \<and> x' < w \<and> v y x' > threshold))"
    by (simp only: Suc.IH)
  also have "\<dots> = (\<lambda>msk y' x'. msk y' x' \<or> (y' = y \<and> x' < Suc w \<and> v y x' > threshold))"
    by (auto simp: point_test_def set_cell_def fun_eq_iff less_Suc_eq)
  finally show ?case .
qed

lemma point_rows:
  "fold (\<lambda>y. fold (point_test threshold v y) [0..<w]) [0..<h] msk =
     (\<lambda>y x. msk y x \<or> (y < h \<and> x < w \<and> v y x > threshold))"
  unfolding point_row
  by (induction h) (auto simp: fun_eq_iff less_Suc_eq)

lemma point_pass_cell:
  "point_pass threshold s y x \<longleftrightarrow>
     vis_mask s y x \<or> (y < height s \<and> x < width s \<and> vis s y x > threshold)"
  by (simp add: point_pass_def point_rows [unfolded point_row] point_rows)

lemma h_while_grows: "tmp_mask y' x' \<Longrightarrow> h_while len threshold s y acc left right tmp_mask y' x'"
proof (induction len threshold s y acc left right tmp_mask rule: h_while.induct)
  case (1 len threshold s y acc left right tmp_mask)
  show ?case
  proof (cases "right < width s")
    case True
    then show ?thesis
      using "1.prems" "1.IH"[OF True refl refl refl]
      by (subst h_while.simps) (simp add: Let_def set_row_slice_def)
  next
    case False
    then show ?thesis using "1.prems" by (subst h_while.simps) simp
  qed
qed

lemma v_while_grows: "tmp_mask y' x' \<Longrightarrow> v_while len threshold s x acc top' bottom tmp_mask y' x'"
proof (induction len threshold s x acc top' bottom tmp_mask rule: v_while.induct)
  case (1 len threshold s x acc top' bottom tmp_mask)
  show ?case
  proof (cases "bottom < height s")
    case True
    then show ?thesis
      using "1.prems" "1.IH"[OF True refl refl refl]
      by (subst v_while.simps) (simp add: Let_def set_col_slice_def)
  next
    case False
    then show ?thesis using "1.prems" by (subst v_while.simps) simp
  qed
qed

lemma fold_grows:
  assumes step: "\<And>i m. m y x \<Longrightarrow> f i m y x"
  shows "m y x \<Longrightarrow> fold f js m y x"
proof (induction js arbitrary: m)
  case Nil
  then show ?case by simp
next
  case (Cons j js)
  from Cons.prems have "f j m y x" by (rule step)
  then have "fold f js (f j m) y x" by (rule Cons.IH)
  then show ?case by simp
qed

lemma h_line_grows: "tmp_mask y' x' \<Longrightarrow> h_line len threshold s y tmp_mask y' x'"
  by (simp add: h_line_def h_while_grows split: prod.splits)

lemma v_line_grows: "tmp_mask y' x' \<Longrightarrow> v_line len threshold s x tmp_mask y' x'"
  by (simp add: v_line_def v_while_grows split: prod.splits)

lemma horizontal_grows:
  "vis_mask s y x \<Longrightarrow> vis_mask (horizontal_sum_threshold len threshold s) y x"
  by (simp add: horizontal_sum_threshold_def point_pass_cell fold_grows h_line_grows)

lemma vertical_grows:
  "vis_mask s y x \<Longrightarrow> vis_mask (vertical_sum_threshold len threshold s) y x"
  by (simp add: vertical_sum_threshold_def point_pass_cell fold_grows v_line_grows)

lemma execute_threshold_grows:
  "vis_mask s y x \<Longrightarrow> vis_mask (execute_threshold factor s) y x"
proof -
  have "vis_mask s' y x \<Longrightarrow> vis_mask (fold (\<lambda>(len, threshold) s'.
             vertical_sum_threshold len (factor * threshold)
               (horizontal_sum_threshold len (factor * threshold) s')) zs s') y x" for zs s'
    by (induction zs arbitrary: s') (auto intro: vertical_grows horizontal_grows)
  then show "vis_mask s y x \<Longrightarrow> vis_mask (execute_threshold factor s) y x"
    by (simp add: execute_threshold_def)
qed

section \<open>Transposition\<close>

lemma transpose_arr_twice [simp]: "transpose_arr (transpose_arr a) = a"
  by (simp add: transpose_arr_def)

lemma transposed_twice [simp]: "transposed (transposed s) = s"
  by (simp add: transposed_def)

lemma transposed_sel [simp]:
  "height (transposed s) = width s" "width (transposed s) = height s"
  "vis (transposed s) y x = vis s x y" "vis_mask (transposed s) y x = vis_mask s x y"
  "lengths (transposed s) = lengths s" "thresholds (transposed s) = thresholds s"
  "min_connected (transposed s) = min_connected s"
  by (simp_all add: transposed_def transpose_arr_def)

lemma vis_mask_transposed: "vis_mask (transposed s) = transpose_arr (vis_mask s)"
  by (simp add: transposed_def)

lemma add_sample_transposed [simp]: "add_sample (transposed s) x y = add_sample s y x"
  by (simp add: add_sample_def fun_eq_iff)

lemma sub_sample_transposed [simp]: "sub_sample (transposed s) x y = sub_sample s y x"
  by (simp add: sub_sample_def fun_eq_iff)

lemma set_col_slice_transpose:
  "set_col_slice h tmp a b x = transpose_arr (set_row_slice h (transpose_arr tmp) x a b)"
  by (simp add: set_col_slice_def set_row_slice_def transpose_arr_def)

lemma v_prime_transposed: "v_prime len s x = h_prime len (transposed s) x"
  by (simp add: v_prime_def h_prime_def)

lemma v_while_transposed:
  "v_while len threshold s x acc top' bottom tmp_mask =
     transpose_arr (h_while len threshold (transposed s) x acc top' bottom (transpose_arr tmp_mask))"
proof (induction len threshold s x acc top' bottom tmp_mask rule: v_while.induct)
  case (1 len threshold s x acc top' bottom tmp_mask)
  show ?case
  proof (cases "bottom < height s")
    case True
    show ?thesis
      apply (subst v_while.simps)
      apply (subst h_while.simps)
      using True "1.IH"[OF True refl refl refl]
      apply (simp add: Let_def set_col_slice_transpose)
      done
  next
    case False
    then show ?thesis
      by (subst v_while.simps, subst h_while.simps) simp
  qed
qed

lemma v_line_transposed:
  "v_line len threshold s x tmp_mask =
     transpose_arr (h_line len threshold (transposed s) x (transpose_arr tmp_mask))"
  by (simp add: v_line_def h_line_def v_prime_transposed v_while_transposed split: prod.splits)

lemma fold_v_line_transposed:
  "fold (v_line len threshold s) js msk =
     transpose_arr (fold (h_line len threshold (transposed s)) js (transpose_arr msk))"
  by (induction js arbitrary: msk) (simp_all add: v_line_transposed)

lemma point_pass_transposed:
  "point_pass threshold (transposed s) = transpose_arr (point_pass threshold s)"
  by (auto simp: fun_eq_iff point_pass_cell transpose_arr_def)

lemma vertical_transposed:
  "vertical_sum_threshold len threshold s =
     transposed (horizontal_sum_threshold len threshold (transposed s))"
proof -
  have eq: "s\<lparr>vis_mask := transpose_arr m\<rparr> = transposed ((transposed s)\<lparr>vis_mask := m\<rparr>)" for m
    by (simp add: transposed_def)
  show ?thesis
    unfolding vertical_sum_threshold_def horizontal_sum_threshold_def
    by (simp add: eq [symmetric] vis_mask_transposed point_pass_transposed fold_v_line_transposed transposed_def [of s, symmetric])
qed

section \<open>Fields that the scans leave alone\<close>

lemma horizontal_frame [simp]:
  "height (horizontal_sum_threshold len threshold s) = height s"
  "width (horizontal_sum_threshold len threshold s) = width s"
  "vis (horizontal_sum_threshold len threshold s) = vis s"
  "lengths (horizontal_sum_threshold len threshold s) = lengths s"
  "thresholds (horizontal_sum_threshold len threshold s) = thresholds s"
  "min_connected (horizontal_sum_threshold len threshold s) = min_connected s"
  by (simp_all add: horizontal_sum_threshold_def)

lemma vertical_frame [simp]:
  "height (vertical_sum_threshold len threshold s) = height s"
  "width (vertical_sum_threshold len threshold s) = width s"
  "vis (vertical_sum_threshold len threshold s) = vis s"
  "lengths (vertical_sum_threshold len threshold s) = lengths s"
  "thresholds (vertical_sum_threshold len threshold s) = thresholds s"
  "min_connected (vertical_sum_threshold len threshold s) = min_connected s"
  by (simp_all add: vertical_sum_threshold_def)

lemma execute_threshold_entry:
  "execute_threshold factor s = fold (entry factor) (zip (lengths s) (thresholds s)) s"
  by (simp add: execute_threshold_def entry_def)

lemma entry_frame [simp]:
  "height (entry factor z s) = height s"
  "width (entry factor z s) = width s"
  "vis (entry factor z s) = vis s"
  "lengths (entry factor z s) = lengths s"
  "thresholds (entry factor z s) = thresholds s"
  "min_connected (entry factor z s) = min_connected s"
  by (simp_all add: entry_def split: prod.splits)

lemma fold_entry_frame [simp]:
  "height (fold (entry factor) zs s) = height s"
  "width (fold (entry factor) zs s) = width s"
  "vis (fold (entry factor) zs s) = vis s"
  "lengths (fold (entry factor) zs s) = lengths s"
  "thresholds (fold (entry factor) zs s) = thresholds s"
  "min_connected (fold (entry factor) zs s) = min_connected s"
  by (induction zs arbitrary: s; simp)+

lemma execute_threshold_frame [simp]:
  "height (execute_threshold factor s) = height s"
  "width (execute_threshold factor s) = width s"
  "vis (execute_threshold factor s) = vis s"
  "lengths (execute_threshold factor s) = lengths s"
  "thresholds (execute_threshold factor s) = thresholds s"
  "min_connected (execute_threshold factor s) = min_connected s"
  by (simp_all add: execute_threshold_entry)

section \<open>Passes that test single samples\<close>

lemma flag_where_sel [simp]:
  "height (flag_where s P) = height s"
  "width (flag_where s P) = width s"
  "vis (flag_where s P) = vis s"
  "lengths (flag_where s P) = lengths s"
  "thresholds (flag_where s P) = thresholds s"
  "min_connected (flag_where s P) = min_connected s"
  "vis_mask (flag_where s P) y x \<longleftrightarrow>
     vis_mask s y x \<or> (y < height s \<and> x < width s \<and> P (vis s y x))"
  by (simp_all add: flag_where_def)

lemma flag_where_twice:
  "flag_where (flag_where s P) Q = flag_where s (\<lambda>v. P v \<or> Q v)"
  by (rule sum_threshold.equality) (auto simp: fun_eq_iff flag_where_def)

lemma flag_where_never: "flag_where s (\<lambda>v. False) = s"
  by (simp add: flag_where_def)

lemma horizontal_one:
  "horizontal_sum_threshold 1 threshold s = flag_where s (\<lambda>v. threshold < v)"
proof (cases "width s = 0")
  case True
  then show ?thesis by (simp add: horizontal_sum_threshold_def flag_where_def)
next
  case False
  then show ?thesis
    by (simp add: horizontal_sum_threshold_def flag_where_def point_pass_cell [abs_def])
qed

lemma vertical_one:
  "vertical_sum_threshold 1 threshold s = flag_where s (\<lambda>v. threshold < v)"
proof (cases "height s = 0")
  case True
  then show ?thesis by (simp add: vertical_sum_threshold_def flag_where_def)
next
  case False
  then show ?thesis
    by (simp add: vertical_sum_threshold_def flag_where_def point_pass_cell [abs_def])
qed

lemma entry_no_window:
  assumes "no_window s len"
  shows "entry factor (len, threshold) s = flag_where s (\<lambda>v. len = 1 \<and> factor * threshold < v)"
proof (cases "len = 1")
  case True
  then show ?thesis
    by (simp add: entry_def horizontal_one vertical_one flag_where_twice)
next
  case False
  with assms have "len < 1 \<or> (int (width s) < len \<and> int (height s) < len)"
    by (auto simp: no_window_def)
  then have "horizontal_sum_threshold len (factor * threshold) s = s"
    "vertical_sum_threshold len (factor * threshold) s = s"
    by (auto simp: horizontal_sum_threshold_def vertical_sum_threshold_def)
  with False show ?thesis by (simp add: entry_def flag_where_never)
qed

lemma fold_entry_no_window:
  assumes "\<forall>z\<in>set zs. no_window s (fst z)"
  shows "fold (entry factor) zs s =
     flag_where s (\<lambda>v. \<exists>z\<in>set zs. fst z = 1 \<and> factor * snd z < v)"
  using assms
proof (induction zs arbitrary: s)
  case Nil
  show ?case by (simp add: flag_where_never)
next
  case (Cons z zs)
  let ?s1 = "flag_where s (\<lambda>v. fst z = 1 \<and> factor * snd z < v)"
  from Cons.prems have "no_window s (fst z)" by simp
  then have s1: "entry factor z s = ?s1"
    using entry_no_window [of s "fst z" factor "snd z"] by simp
  have "\<forall>z\<in>set zs. no_window ?s1 (fst z)"
    using Cons.prems by (simp add: no_window_def)
  then have "fold (entry factor) zs ?s1 =
      flag_where ?s1 (\<lambda>v. \<exists>z\<in>set zs. fst z = 1 \<and> factor * snd z < v)"
    by (rule Cons.IH)
  then show ?case
    by (simp add: s1 flag_where_twice)
qed

section \<open>Rows do not interact\<close>

lemma h_while_step:
  "right < width s \<Longrightarrow>
   h_while len threshold s y acc left right tmp_mask =
     h_while len threshold s y (sub_sample s y left (add_sample s y right acc))
       (Suc left) (Suc right)
       (if exceeds threshold (add_sample s y right acc)
        then set_row_slice (width s) tmp_mask y left (left + len) else tmp_mask)"
  by (subst h_while.simps) (simp add: Let_def)

lemma h_while_stop:
  "\<not> right < width s \<Longrightarrow> h_while len threshold s y acc left right tmp_mask = tmp_mask"
  by (subst h_while.simps) simp

lemma h_while_other_rows:
  "y' \<noteq> y \<Longrightarrow> h_while len threshold s y acc left right tmp_mask y' = tmp_mask y'"
proof (induction "width s - right" arbitrary: acc left right tmp_mask)
  case 0
  then show ?case by (simp add: h_while_stop)
next
  case (Suc n)
  then have lt: "right < width s" and n: "n = width s - Suc right" by simp_all
  show ?case
    unfolding h_while_step [OF lt]
    using Suc.hyps(1) [OF n Suc.prems] Suc.prems
    by (simp add: set_row_slice_def fun_eq_iff)
qed

lemma h_while_pending:
  "h_while len threshold s y acc left right tmp_mask y' x' \<longleftrightarrow>
     tmp_mask y' x' \<or> h_while len threshold s y acc left right (\<lambda>y x. False) y' x'"
proof (induction "width s - right" arbitrary: acc left right tmp_mask)
  case 0
  then show ?case by (simp add: h_while_stop)
next
  case (Suc n)
  then have lt: "right < width s" and n: "n = width s - Suc right" by simp_all
  note IH = Suc.hyps(1) [OF n]
  show ?case
    unfolding h_while_step [OF lt]
    by (subst IH, subst (2) IH) (auto simp: set_row_slice_def)
qed

lemma add_sample_agree:
  "vis s1 y x = vis s2 y x \<Longrightarrow> vis_mask s1 y x = vis_mask s2 y x \<Longrightarrow>
   add_sample s1 y x = add_sample s2 y x"
  by (simp add: add_sample_def fun_eq_iff)

lemma sub_sample_agree:
  "vis s1 y x = vis s2 y x \<Longrightarrow> vis_mask s1 y x = vis_mask s2 y x \<Longrightarrow>
   sub_sample s1 y x = sub_sample s2 y x"
  by (simp add: sub_sample_def fun_eq_iff)

lemma h_prime_right: "snd (h_prime len s y) = len - 2"
proof -
  have "snd (fold (\<lambda>x (acc, right). (add_sample s y x acc, x)) [0..<n] (a, 0)) = n - 1" for n a
    by (induction n) (simp_all add: case_prod_beta)
  from this [of "len - 1"] show ?thesis
    by (simp add: h_prime_def numeral_2_eq_2)
qed

lemma h_prime_agree:
  assumes v: "\<forall>x<width s1. vis s1 y x = vis s2 y x"
    and m: "\<forall>x<width s1. vis_mask s1 y x = vis_mask s2 y x"
    and len: "len - 1 \<le> width s1"
  shows "h_prime len s1 y = h_prime len s2 y"
proof -
  have "n \<le> width s1 \<Longrightarrow>
      fold (\<lambda>x (acc, right). (add_sample s1 y x acc, x)) [0..<n] a =
      fold (\<lambda>x (acc, right). (add_sample s2 y x acc, x)) [0..<n] a" for n a
  proof (induction n)
    case 0
    show ?case by simp
  next
    case (Suc n)
    then have "n < width s1" by simp
    with v m have "add_sample s1 y n = add_sample s2 y n"
      by (intro add_sample_agree) simp_all
    with Suc show ?case by simp
  qed
  from this [OF len] show ?thesis by (simp add: h_prime_def)
qed

lemma h_while_agree:
  assumes w: "width s1 = width s2"
    and v: "\<forall>x<width s1. vis s1 y x = vis s2 y x"
    and m: "\<forall>x<width s1. vis_mask s1 y x = vis_mask s2 y x"
  shows "left \<le> right \<Longrightarrow> \<forall>x<width s1. tmp1 y x = tmp2 y x \<Longrightarrow> x < width s1 \<Longrightarrow>
     h_while len threshold s1 y acc left right tmp1 y x =
     h_while len threshold s2 y acc left right tmp2 y x"
proof (induction "width s1 - right" arbitrary: acc left right tmp1 tmp2)
  case 0
  then show ?case using w by (simp add: h_while_stop)
next
  case (Suc n)
  then have lt: "right < width s1" and n: "n = width s1 - Suc right" by simp_all
  from lt w have lt2: "right < width s2" by simp
  from lt Suc.prems(1) have ll: "left < width s1" by simp
  have a: "add_sample s1 y right = add_sample s2 y right"
    using v m lt by (intro add_sample_agree) simp_all
  have b: "sub_sample s1 y left = sub_sample s2 y left"
    using v m ll by (intro sub_sample_agree) simp_all
  show ?case
    unfolding h_while_step [OF lt] h_while_step [OF lt2] a b
    by (rule Suc.hyps(1) [OF n]) (use Suc.prems w in \<open>auto simp: set_row_slice_def\<close>)
qed

lemma h_line_agree:
  assumes "width s1 = width s2"
    and "\<forall>x<width s1. vis s1 y x = vis s2 y x"
    and "\<forall>x<width s1. vis_mask s1 y x = vis_mask s2 y x"
    and "len - 1 \<le> width s1"
    and "\<forall>x<width s1. tmp1 y x = tmp2 y x" and "x < width s1"
  shows "h_line len threshold s1 y tmp1 y x = h_line len threshold s2 y tmp2 y x"
proof -
  obtain acc right where p: "h_prime len s1 y = (acc, right)" by (cases "h_prime len s1 y")
  then have p2: "h_prime len s2 y = (acc, right)"
    using h_prime_agree [OF assms(2,3,4)] by simp
  have "h_while len threshold s1 y acc 0 right tmp1 y x =
        h_while len threshold s2 y acc 0 right tmp2 y x"
    by (rule h_while_agree) (use assms in simp_all)
  then show ?thesis
    by (simp add: h_line_def p p2)
qed

lemma h_line_other_rows: "y' \<noteq> y \<Longrightarrow> h_line len threshold s y tmp_mask y' = tmp_mask y'"
  by (simp add: h_line_def h_while_other_rows split: prod.splits)

lemma fold_h_line_above:
  "h \<le> y \<Longrightarrow> fold (h_line len threshold s) [0..<h] msk y = msk y"
  by (induction h) (simp_all add: h_line_other_rows)

lemma fold_h_line_row:
  assumes "len - 1 \<le> width s" "x < width s"
  shows "y < h \<Longrightarrow> fold (h_line len threshold s) [0..<h] msk y x = h_line len threshold s y msk y x"
proof (induction h)
  case 0
  then show ?case by simp
next
  case (Suc h)
  show ?case
  proof (cases "y = h")
    case True
    have "h_line len threshold s h (fold (h_line len threshold s) [0..<h] msk) h x =
          h_line len threshold s h msk h x"
      by (rule h_line_agree) (use assms in \<open>simp_all add: fold_h_line_above\<close>)
    with True show ?thesis by simp
  next
    case False
    with Suc show ?thesis by (simp add: h_line_other_rows)
  qed
qed

lemma horizontal_row:
  assumes "1 < len" "len \<le> int (width s)" "y < height s" "x < width s"
  shows "vis_mask (horizontal_sum_threshold len threshold s) y x =
           h_line (nat len) threshold s y (vis_mask s) y x"
  using assms by (simp add: horizontal_sum_threshold_def fold_h_line_row)

lemma horizontal_agree:
  assumes w: "width s1 = width s2" and y: "y < height s1" "y < height s2"
    and v: "\<forall>x<width s1. vis s1 y x = vis s2 y x"
    and m: "\<forall>x<width s1. vis_mask s1 y x = vis_mask s2 y x"
    and x: "x < width s1"
  shows "vis_mask (horizontal_sum_threshold len threshold s1) y x =
         vis_mask (horizontal_sum_threshold len threshold s2) y x"
proof -
  consider "int (width s1) < len" | "len = 1" | "1 < len" "len \<le> int (width s1)" | "len < 1"
    by linarith
  then show ?thesis
  proof cases
    case 1
    then show ?thesis using w m x by (simp add: horizontal_sum_threshold_def)
  next
    case 2
    then show ?thesis using w y v m x by (simp add: horizontal_one)
  next
    case 3
    have "h_line (nat len) threshold s1 y (vis_mask s1) y x =
          h_line (nat len) threshold s2 y (vis_mask s2) y x"
      by (rule h_line_agree) (use 3 w v m x in auto)
    then show ?thesis
      using 3 w y x by (simp add: horizontal_row)
  next
    case 4
    then show ?thesis using w m x by (simp add: horizontal_sum_threshold_def)
  qed
qed

lemma vertical_agree:
  assumes h: "height s1 = height s2" and x: "x < width s1" "x < width s2"
    and v: "\<forall>y<height s1. vis s1 y x = vis s2 y x"
    and m: "\<forall>y<height s1. vis_mask s1 y x = vis_mask s2 y x"
    and y: "y < height s1"
  shows "vis_mask (vertical_sum_threshold len threshold s1) y x =
         vis_mask (vertical_sum_threshold len threshold s2) y x"
proof -
  have "vis_mask (horizontal_sum_threshold len threshold (transposed s1)) x y =
        vis_mask (horizontal_sum_threshold len threshold (transposed s2)) x y"
    by (rule horizontal_agree) (use assms in simp_all)
  then show ?thesis by (simp add: vertical_transposed)
qed

lemma horizontal_new_flags:
  assumes "1 < len" "len \<le> int (width s)" "y < height s" "x < width s"
  shows "vis_mask (horizontal_sum_threshold len threshold s) y x \<longleftrightarrow>
           vis_mask s y x \<or> h_line (nat len) threshold s y (\<lambda>y x. False) y x"
  unfolding horizontal_row [OF assms]
  by (simp add: h_line_def h_while_pending [of _ _ _ _ _ _ _ "vis_mask s"] split: prod.splits)

lemma vertical_new_flags:
  assumes "1 < len" "len \<le> int (height s)" "y < height s" "x < width s"
  shows "vis_mask (vertical_sum_threshold len threshold s) y x \<longleftrightarrow>
           vis_mask s y x \<or> v_line (nat len) threshold s x (\<lambda>y x. False) y x"
proof -
  have "vis_mask (horizontal_sum_threshold len threshold (transposed s)) x y \<longleftrightarrow>
          vis_mask (transposed s) x y \<or>
          h_line (nat len) threshold (transposed s) x (\<lambda>y x. False) x y"
    by (rule horizontal_new_flags) (use assms in simp_all)
  then show ?thesis
    by (simp add: vertical_transposed v_line_transposed transpose_arr_def)
qed

section \<open>What the scan of a row tests\<close>

lemma h_tests_step:
  "right < width s \<Longrightarrow>
   h_tests s y acc left right =
     (left, add_sample s y right acc) #
     h_tests s y (sub_sample s y left (add_sample s y right acc)) (Suc left) (Suc right)"
  by (subst h_tests.simps) (simp add: Let_def)

lemma h_tests_stop: "\<not> right < width s \<Longrightarrow> h_tests s y acc left right = []"
  by (subst h_tests.simps) simp

lemma h_while_tests:
  "h_while len threshold s y acc left right tmp_mask =
     fold (flag_test len threshold s y) (h_tests s y acc left right) tmp_mask"
proof (induction "width s - right" arbitrary: acc left right tmp_mask)
  case 0
  then show ?case by (simp add: h_while_stop h_tests_stop)
next
  case (Suc n)
  then have lt: "right < width s" and n: "n = width s - Suc right" by simp_all
  show ?case
    unfolding h_while_step [OF lt] h_tests_step [OF lt]
    by (simp add: Suc.hyps(1) [OF n] flag_test_def)
qed

lemma h_tests_length: "length (h_tests s y acc left right) = width s - right"
proof (induction "width s - right" arbitrary: acc left right)
  case 0
  then show ?case by (simp add: h_tests_stop)
next
  case (Suc n)
  then have lt: "right < width s" and n: "n = width s - Suc right" by simp_all
  show ?case
    unfolding h_tests_step [OF lt]
    using Suc.hyps(1) [OF n] lt by simp
qed

lemma window_sum_0 [simp]: "window_sum s y left 0 = 0"
  by (simp add: window_sum_def)

lemma window_count_0 [simp]: "window_count s y left 0 = 0"
  by (simp add: window_count_def)

lemma upt_split: "[left..<left + (m + n)] = [left..<left + m] @ [left + m..<left + m + n]"
  using upt_add_eq_append [of left "left + m" n] by (simp add: add.assoc)

lemma window_sum_add:
  "window_sum s y left (m + n) = window_sum s y left m + window_sum s y (left + m) n"
  unfolding window_sum_def upt_split by simp

lemma window_count_add:
  "window_count s y left (m + n) = window_count s y left m + window_count s y (left + m) n"
  unfolding window_count_def upt_split by simp

lemma window_sum_1: "window_sum s y x (Suc 0) = (if vis_mask s y x then 0 else vis s y x)"
  by (simp add: window_sum_def)

lemma window_count_1: "window_count s y x (Suc 0) = (if vis_mask s y x then 0 else 1)"
  by (simp add: window_count_def)

lemma add_sample_window:
  "add_sample s y x acc =
     \<lparr>sm = sm acc + window_sum s y x 1, cnt = cnt acc + window_count s y x 1\<rparr>"
  by (simp add: add_sample_def window_sum_1 window_count_1)

lemma sub_sample_window:
  "sub_sample s y x acc =
     \<lparr>sm = sm acc - window_sum s y x 1, cnt = cnt acc - window_count s y x 1\<rparr>"
  by (simp add: sub_sample_def window_sum_1 window_count_1)

lemma h_tests_nth:
  "k < width s - right \<Longrightarrow>
   h_tests s y acc left right ! k =
     (left + k,
      \<lparr>sm = sm acc + window_sum s y right (Suc k) - window_sum s y left k,
       cnt = cnt acc + window_count s y right (Suc k) - window_count s y left k\<rparr>)"
proof (induction k arbitrary: acc left right)
  case 0
  then have lt: "right < width s" by simp
  show ?case
    unfolding h_tests_step [OF lt] by (simp add: add_sample_window)
next
  case (Suc k)
  then have lt: "right < width s" and k: "k < width s - Suc right" by simp_all
  have l: "window_sum s y left (Suc k) = window_sum s y left 1 + window_sum s y (Suc left) k"
    "window_count s y left (Suc k) = window_count s y left 1 + window_count s y (Suc left) k"
    using window_sum_add [of s y left 1 k] window_count_add [of s y left 1 k] by simp_all
  have r: "window_sum s y right (Suc (Suc k)) =
             window_sum s y right 1 + window_sum s y (Suc right) (Suc k)"
    "window_count s y right (Suc (Suc k)) =
             window_count s y right 1 + window_count s y (Suc right) (Suc k)"
    using window_sum_add [of s y right 1 "Suc k"] window_count_add [of s y right 1 "Suc k"]
    by simp_all
  show ?case
    unfolding h_tests_step [OF lt]
    by (simp add: Suc.IH [OF k] l r add_sample_window sub_sample_window)
qed

lemma h_prime_sums:
  "h_prime len s y =
     (\<lparr>sm = window_sum s y 0 (len - 1), cnt = window_count s y 0 (len - 1)\<rparr>, len - 2)"
proof -
  have "fold (\<lambda>x (acc, right). (add_sample s y x acc, x)) [0..<n] (\<lparr>sm = 0, cnt = 0\<rparr>, 0) =
          (\<lparr>sm = window_sum s y 0 n, cnt = window_count s y 0 n\<rparr>, n - 1)" for n
  proof (induction n)
    case 0
    show ?case by simp
  next
    case (Suc n)
    have "window_sum s y 0 (Suc n) = window_sum s y 0 n + window_sum s y n 1"
      "window_count s y 0 (Suc n) = window_count s y 0 n + window_count s y n 1"
      using window_sum_add [of s y 0 n 1] window_count_add [of s y 0 n 1] by simp_all
    with Suc show ?case by (simp add: add_sample_window)
  qed
  from this [of "len - 1"] show ?thesis
    by (simp add: h_prime_def numeral_2_eq_2)
qed

lemma h_tested_length: "2 \<le> len \<Longrightarrow> length (h_tested len s y) = width s + 2 - len"
  by (simp add: h_tested_def h_prime_sums h_tests_length)

lemma h_tested_nth:
  assumes "2 \<le> len" "k + len \<le> width s + 1"
  shows "h_tested len s y ! k =
     (k, \<lparr>sm = window_sum s y k (len - 1) + window_sum s y (len - 2) 1,
          cnt = window_count s y k (len - 1) + window_count s y (len - 2) 1\<rparr>)"
proof -
  from assms have k: "k < width s - (len - 2)" by simp
  from assms(1) have len: "len - 2 + 1 = len - 1" by simp
  have c: "len - 1 + k = k + (len - 1)" by simp
  have a: "window_sum s y 0 (len - 1) + window_sum s y (len - 2) (Suc k) -
             window_sum s y 0 k =
           window_sum s y k (len - 1) + window_sum s y (len - 2) 1"
  proof -
    have "window_sum s y (len - 2) (1 + k) =
            window_sum s y (len - 2) 1 + window_sum s y (len - 1) k"
      unfolding window_sum_add len ..
    moreover have "window_sum s y 0 (k + (len - 1)) =
        window_sum s y 0 (len - 1) + window_sum s y (len - 1) k"
      unfolding c [symmetric] window_sum_add by simp
    moreover have "window_sum s y 0 (k + (len - 1)) =
        window_sum s y 0 k + window_sum s y k (len - 1)"
      unfolding window_sum_add by simp
    ultimately show ?thesis by simp
  qed
  have b: "window_count s y 0 (len - 1) + window_count s y (len - 2) (Suc k) -
             window_count s y 0 k =
           window_count s y k (len - 1) + window_count s y (len - 2) 1"
  proof -
    have "window_count s y (len - 2) (1 + k) =
            window_count s y (len - 2) 1 + window_count s y (len - 1) k"
      unfolding window_count_add len ..
    moreover have "window_count s y 0 (k + (len - 1)) =
        window_count s y 0 (len - 1) + window_count s y (len - 1) k"
      unfolding c [symmetric] window_count_add by simp
    moreover have "window_count s y 0 (k + (len - 1)) =
        window_count s y 0 k + window_count s y k (len - 1)"
      unfolding window_count_add by simp
    ultimately show ?thesis by simp
  qed
  have "h_tested len s y ! k =
     (0 + k, \<lparr>sm = window_sum s y 0 (len - 1) + window_sum s y (len - 2) (Suc k) -
                  window_sum s y 0 k,
          cnt = window_count s y 0 (len - 1) + window_count s y (len - 2) (Suc k) -
                  window_count s y 0 k\<rparr>)"
    unfolding h_tested_def h_prime_sums
    by (simp add: h_tests_nth [OF k])
  then show ?thesis
    unfolding a b by simp
qed

section \<open>The flags of a pass with a sliding window\<close>

lemma fold_flag_test:
  "fold (flag_test len threshold s y) ts tmp_mask y' x' \<longleftrightarrow>
     tmp_mask y' x' \<or>
     (y' = y \<and> x' < width s \<and>
      (\<exists>t\<in>set ts. exceeds threshold (snd t) \<and> fst t \<le> x' \<and> x' < fst t + len))"
proof (induction ts arbitrary: tmp_mask)
  case Nil
  show ?case by simp
next
  case (Cons t ts)
  show ?case
    unfolding fold_Cons comp_apply Cons.IH
    by (cases t) (auto simp: flag_test_def set_row_slice_def)
qed

lemma bex_set_nth: "(\<exists>t\<in>set ts. P t) \<longleftrightarrow> (\<exists>k<length ts. P (ts ! k))"
  by (metis in_set_conv_nth)

lemma h_line_flags:
  assumes "2 \<le> len"
  shows "h_line len threshold s y tmp_mask y' x' \<longleftrightarrow>
     tmp_mask y' x' \<or>
     (y' = y \<and> x' < width s \<and>
      (\<exists>k. k + len \<le> width s + 1 \<and> k \<le> x' \<and> x' < k + len \<and>
         exceeds threshold
           \<lparr>sm = window_sum s y k (len - 1) + window_sum s y (len - 2) 1,
            cnt = window_count s y k (len - 1) + window_count s y (len - 2) 1\<rparr>))"
proof -
  let ?ts = "h_tested len s y"
  let ?acc = "\<lambda>k. \<lparr>sm = window_sum s y k (len - 1) + window_sum s y (len - 2) 1,
            cnt = window_count s y k (len - 1) + window_count s y (len - 2) 1\<rparr>"
  have n: "k < length ?ts \<longleftrightarrow> k + len \<le> width s + 1" for k
    using assms by (auto simp: h_tested_length)
  have "(\<exists>t\<in>set ?ts. exceeds threshold (snd t) \<and> fst t \<le> x' \<and> x' < fst t + len) \<longleftrightarrow>
        (\<exists>k<length ?ts. exceeds threshold (snd (?ts ! k)) \<and> fst (?ts ! k) \<le> x' \<and>
            x' < fst (?ts ! k) + len)"
    by (rule bex_set_nth)
  also have "\<dots> \<longleftrightarrow> (\<exists>k. k + len \<le> width s + 1 \<and> k \<le> x' \<and> x' < k + len \<and>
         exceeds threshold (?acc k))"
    using h_tested_nth [OF assms, of _ s y] by (auto simp: n)
  finally have ts: "(\<exists>t\<in>set ?ts. exceeds threshold (snd t) \<and> fst t \<le> x' \<and> x' < fst t + len) \<longleftrightarrow>
     (\<exists>k. k + len \<le> width s + 1 \<and> k \<le> x' \<and> x' < k + len \<and> exceeds threshold (?acc k))" .
  have "h_line len threshold s y tmp_mask = fold (flag_test len threshold s y) ?ts tmp_mask"
    by (simp add: h_line_def h_tested_def h_while_tests split: prod.splits)
  then show ?thesis
    by (simp only: fold_flag_test ts)
qed

lemma horizontal_flags:
  assumes "1 < len" "len \<le> int (width s)" "y < height s" "x < width s"
  shows "vis_mask (horizontal_sum_threshold len threshold s) y x \<longleftrightarrow>
     vis_mask s y x \<or>
     (\<exists>k. k + nat len \<le> width s + 1 \<and> k \<le> x \<and> x < k + nat len \<and>
        exceeds threshold
          \<lparr>sm = window_sum s y k (nat len - 1) + window_sum s y (nat len - 2) 1,
           cnt = window_count s y k (nat len - 1) + window_count s y (nat len - 2) 1\<rparr>)"
proof -
  from assms(1) have "2 \<le> nat len" by simp
  from h_line_flags [OF this, of threshold s y "vis_mask s" y x] assms(4) show ?thesis
    by (simp only: horizontal_row [OF assms] simp_thms)
qed

section \<open>Properties of the detector\<close>

subsection \<open>The single-sample pass\<close>

text \<open>
  C4: for \<^verbatim>\<open>length == 1\<close> a pass flags position \<open>(y, x)\<close> if and only if the position
  was unmasked before the pass and its sample strictly exceeds the threshold, and every
  position that was masked stays as it was: after the pass a position of the array is
  masked exactly when it was masked before or its sample exceeds the threshold.  This
  holds for both axes.
\<close>

theorem length_one_pass:
  "(vis_mask (horizontal_sum_threshold 1 threshold s) y x \<longleftrightarrow>
      vis_mask s y x \<or> (y < height s \<and> x < width s \<and> threshold < vis s y x)) \<and>
   (vis_mask (vertical_sum_threshold 1 threshold s) y x \<longleftrightarrow>
      vis_mask s y x \<or> (y < height s \<and> x < width s \<and> threshold < vis s y x))"
  by (simp add: horizontal_one vertical_one)

text \<open>
  Scenario A: on \<open>[1,1,1,1,9,1,1,1]\<close> with an empty mask, length 1 and threshold 5,
  exactly index 4 is flagged.
\<close>

theorem length_one_pass_witness:
  "map (vis_mask (horizontal_sum_threshold 1 5
          (detector [[1,1,1,1,9,1,1,1]] [replicate 8 False] [] [])) 0) [0..<8] =
     [False, False, False, False, True, False, False, False]"
  by (simp add: length_one_pass upt_rec detector_def from_rows_def)

subsection \<open>Monotonic growth of the mask\<close>

text \<open>
  C5: the mask only ever grows.  Whatever the arrays, lengths and thresholds, after any
  sequence of calls of \<open>horizontal_sum_threshold\<close>, \<open>vertical_sum_threshold\<close> and
  \<open>execute_threshold\<close> every position that was masked before is still masked.
\<close>

theorem mask_only_grows:
  "vis_mask s y x \<Longrightarrow> vis_mask (fold run_call calls s) y x"
proof (induction calls arbitrary: s)
  case Nil
  then show ?case by simp
next
  case (Cons c calls)
  from Cons.prems have "vis_mask (run_call c s) y x"
    by (cases c) (simp_all add: horizontal_grows vertical_grows execute_threshold_grows)
  then have "vis_mask (fold run_call calls (run_call c s)) y x"
    by (rule Cons.IH)
  then show ?case by simp
qed

theorem mask_only_grows_witness:
  "vis_mask (detector [[1,1,1,1,9,1,1,1]]
       [[False, False, False, False, True, False, False, False]] [1, 2] [5, 3]) 0 4 \<and>
   vis_mask (fold run_call [Horizontal 2 3, Vertical 1 5, ExecuteThreshold 1]
     (detector [[1,1,1,1,9,1,1,1]]
       [[False, False, False, False, True, False, False, False]] [1, 2] [5, 3])) 0 4"
proof -
  have h: "vis_mask (detector [[1,1,1,1,9,1,1,1]]
       [[False, False, False, False, True, False, False, False]] [1, 2] [5, 3]) 0 4"
    by (simp add: detector_def from_rows_def)
  show ?thesis
    by (rule conjI [OF h mask_only_grows [OF h]])
qed

subsection \<open>Running the schedule twice\<close>

text \<open>
  C6 as stated (running \<open>execute_threshold\<close> a second time with the same factor adds no
  flag) fails: on the row \<open>[10,0,0,4,4]\<close> with the schedule \<open>(3, 3)\<close> and factor 1 the
  first run flags indices 0 to 2, and the second run, which no longer counts these
  three samples, flags indices 3 and 4 as well.
\<close>

theorem execute_threshold_twice_counterexample:
  "mask_rows (execute_threshold 1
      (detector [[10,0,0,4,4]] [replicate 5 False] [3] [3])) =
     [[True, True, True, False, False]] \<and>
   mask_rows (execute_threshold 1 (execute_threshold 1
      (detector [[10,0,0,4,4]] [replicate 5 False] [3] [3]))) =
     [[True, True, True, True, True]]"
  by code_simp

text \<open>
  C6, amended: when no length of the schedule makes a scan slide a window (every length
  is at most 1, or exceeds both extents of the array), running \<open>execute_threshold\<close> a
  second time with the same factor leaves the mask, and the whole detector, exactly as
  the first run left it.
\<close>

theorem execute_threshold_twice:
  assumes "\<forall>len\<in>set (lengths s). len \<le> 1 \<or> (int (width s) < len \<and> int (height s) < len)"
  shows "execute_threshold factor (execute_threshold factor s) = execute_threshold factor s"
proof -
  let ?zs = "zip (lengths s) (thresholds s)"
  let ?P = "\<lambda>v. \<exists>z\<in>set ?zs. fst z = 1 \<and> factor * snd z < v"
  have nw: "\<forall>z\<in>set ?zs. no_window s (fst z)"
    using assms by (auto simp: no_window_def dest!: set_zip_leftD)
  then have nw1: "\<forall>z\<in>set ?zs. no_window (flag_where s ?P) (fst z)"
    by (simp add: no_window_def)
  have first: "execute_threshold factor s = flag_where s ?P"
    by (simp add: execute_threshold_entry fold_entry_no_window [OF nw])
  have "execute_threshold factor (flag_where s ?P) = flag_where (flag_where s ?P) ?P"
    by (simp add: execute_threshold_entry fold_entry_no_window [OF nw1])
  also have "\<dots> = flag_where s ?P"
    by (simp add: flag_where_twice)
  finally show ?thesis by (simp add: first)
qed

text \<open>A schedule with the lengths 1 and 16 on an array with one row and eight columns.\<close>

theorem execute_threshold_twice_witness:
  "execute_threshold 1 (execute_threshold 1
      (detector [[1,1,1,1,9,1,1,1]] [replicate 8 False] [1, 16] [5, 2])) =
   execute_threshold 1 (detector [[1,1,1,1,9,1,1,1]] [replicate 8 False] [1, 16] [5, 2])"
proof -
  have h: "\<forall>len\<in>set (lengths (detector [[1,1,1,1,9,1,1,1]] [replicate 8 False] [1, 16] [5, 2])).
      len \<le> 1 \<or>
      (int (width (detector [[1,1,1,1,9,1,1,1]] [replicate 8 False] [1, 16] [5, 2])) < len \<and>
       int (height (detector [[1,1,1,1,9,1,1,1]] [replicate 8 False] [1, 16] [5, 2])) < len)"
    by (simp add: detector_def)
  show ?thesis
    by (rule execute_threshold_twice [OF h])
qed

subsection \<open>The unsupported connected-sample filter\<close>

text \<open>
  C7: a detector constructed with \<open>min_connected > 1\<close> raises the unsupported-feature
  error (\<^verbatim>\<open>NotImplementedError\<close>) from \<open>execute\<close>, and only after all threshold passes
  have run: the object is left with the mask that \<open>execute_threshold\<close> produced.  A
  detector constructed with \<open>min_connected \<le> 1\<close> (zero and negative values are clamped
  to 1) never raises this error.  The sensitivity is a valid one, that is positive.
\<close>

theorem execute_min_connected:
  "(0 < sensitivity \<longrightarrow>
      execute sensitivity (init base m) =
        (execute_threshold sensitivity (init base m),
         if 1 < m then Some NotImplementedError else None)) \<and>
   (m \<le> 1 \<longrightarrow> snd (execute sensitivity (init base m)) \<noteq> Some NotImplementedError)"
  by (simp add: execute_def base_execute_def init_def)

theorem execute_min_connected_witness:
  "(0::real) < 1 \<and>
   execute 1 (init (detector [[1,1,1,1,9,1,1,1]] [replicate 8 False] [1] [5]) 2) =
     (execute_threshold 1 (init (detector [[1,1,1,1,9,1,1,1]] [replicate 8 False] [1] [5]) 2),
      Some NotImplementedError) \<and>
   (0::int) \<le> 1 \<and>
   execute 1 (init (detector [[1,1,1,1,9,1,1,1]] [replicate 8 False] [1] [5]) 0) =
     (execute_threshold 1 (init (detector [[1,1,1,1,9,1,1,1]] [replicate 8 False] [1] [5]) 0),
      None) \<and>
   snd (execute 1 (init (detector [[1,1,1,1,9,1,1,1]] [replicate 8 False] [1] [5]) 0))
     \<noteq> Some NotImplementedError"
  using
    execute_min_connected [of 1 "detector [[1,1,1,1,9,1,1,1]] [replicate 8 False] [1] [5]" 2]
    execute_min_connected [of 1 "detector [[1,1,1,1,9,1,1,1]] [replicate 8 False] [1] [5]" 0]
  by simp

subsection \<open>Windows longer than the line\<close>

text \<open>
  C8: if the length exceeds the extent of the scanned axis (the width for
  \<open>horizontal_sum_threshold\<close>, the height for \<open>vertical_sum_threshold\<close>), the call does
  nothing: it returns without error, and the mask and the samples are unchanged.
\<close>

theorem too_long_is_noop:
  "(int (width s) < len \<longrightarrow> horizontal_sum_threshold len threshold s = s) \<and>
   (int (height s) < len \<longrightarrow> vertical_sum_threshold len threshold s = s)"
  by (simp add: horizontal_sum_threshold_def vertical_sum_threshold_def)

theorem too_long_is_noop_witness:
  "int (width (detector [[1,1,1,1,9,1,1,1]] [replicate 8 False] [] [])) < 9 \<and>
   horizontal_sum_threshold 9 3 (detector [[1,1,1,1,9,1,1,1]] [replicate 8 False] [] []) =
     detector [[1,1,1,1,9,1,1,1]] [replicate 8 False] [] [] \<and>
   int (height (detector [[1,1,1,1,9,1,1,1]] [replicate 8 False] [] [])) < 2 \<and>
   vertical_sum_threshold 2 3 (detector [[1,1,1,1,9,1,1,1]] [replicate 8 False] [] []) =
     detector [[1,1,1,1,9,1,1,1]] [replicate 8 False] [] []"
  using
    too_long_is_noop [of "detector [[1,1,1,1,9,1,1,1]] [replicate 8 False] [] []" 9 3]
    too_long_is_noop [of "detector [[1,1,1,1,9,1,1,1]] [replicate 8 False] [] []" 2 3]
  by (simp add: detector_def)

subsection \<open>The two axes\<close>

text \<open>
  C10: for every length, threshold, visibility array and mask,
  \<open>vertical_sum_threshold\<close> produces exactly the detector obtained by transposing the
  samples and the mask, applying \<open>horizontal_sum_threshold\<close> with the same length and
  threshold, and transposing the result back.
\<close>

theorem vertical_is_transposed_horizontal:
  "vertical_sum_threshold len threshold s =
     transposed (horizontal_sum_threshold len threshold (transposed s))"
  by (rule vertical_transposed)

subsection \<open>Scenario B\<close>

text \<open>
  C2 as stated expects the mask \<open>[F,F,F,T,T,F,F,F]\<close> from one horizontal pass with length
  2 and threshold 3 over \<open>[1,1,1,1,9,1,1,1]\<close>, by itself or as the only entry of the
  schedule with sensitivity 1.  The pass does not produce this mask.
\<close>

theorem scenario_B_mask_counterexample:
  "mask_rows (horizontal_sum_threshold 2 3
      (detector [[1,1,1,1,9,1,1,1]] [replicate 8 False] [] [])) \<noteq>
     [[False, False, False, True, True, False, False, False]] \<and>
   mask_rows (execute_threshold 1
      (detector [[1,1,1,1,9,1,1,1]] [replicate 8 False] [2] [3])) \<noteq>
     [[False, False, False, True, True, False, False, False]]"
  by code_simp

text \<open>
  C2, amended: on the row \<open>[1,1,1,1,9,1,1,1]\<close> with an empty mask, one horizontal pass with
  length 2 and threshold 3 flags indices 4 and 5, the two positions of the window
  \<open>[4, 6)\<close>, whose unmasked mean \<open>10 / 2 = 5\<close> exceeds 3, and flags none of the indices
  0, 1, 2, 6 and 7.  Nothing is said about index 3.
\<close>

theorem scenario_B_flags:
  "map (vis_mask (horizontal_sum_threshold 2 3
      (detector [[1,1,1,1,9,1,1,1]] [replicate 8 False] [] [])) 0) [4, 5] = [True, True] \<and>
   map (vis_mask (horizontal_sum_threshold 2 3
      (detector [[1,1,1,1,9,1,1,1]] [replicate 8 False] [] [])) 0) [0, 1, 2, 6, 7] =
     [False, False, False, False, False] \<and>
   map (vis_mask (execute_threshold 1
      (detector [[1,1,1,1,9,1,1,1]] [replicate 8 False] [2] [3])) 0) [4, 5] = [True, True] \<and>
   map (vis_mask (execute_threshold 1
      (detector [[1,1,1,1,9,1,1,1]] [replicate 8 False] [2] [3])) 0) [0, 1, 2, 6, 7] =
     [False, False, False, False, False] \<and>
   window_sum (detector [[1,1,1,1,9,1,1,1]] [replicate 8 False] [] []) 0 4 2 = 10 \<and>
   window_count (detector [[1,1,1,1,9,1,1,1]] [replicate 8 False] [] []) 0 4 2 = 2 \<and>
   window_exceeds 3 (detector [[1,1,1,1,9,1,1,1]] [replicate 8 False] [] []) 0 4 2"
  by code_simp

subsection \<open>The running sums of a pass with a sliding window\<close>

text \<open>
  C1 states that in a pass with \<^verbatim>\<open>length > 1\<close>, whenever a window is tested, the running
  sum and count are those of the unmasked samples of the window
  \<open>[left, left + length)\<close>.  The loop does not maintain this.  The priming loop
  \<^verbatim>\<open>for right in xrange(length-1)\<close> leaves \<^verbatim>\<open>right = length - 2\<close>, so the \<^verbatim>\<open>while\<close> loop
  adds sample \<open>length - 2\<close> a second time and runs one position behind: what is tested
  at \<open>left\<close> are the \<open>length - 1\<close> samples from \<open>left\<close> on together with sample
  \<open>length - 2\<close> of the line (lemma \<open>h_tested_nth\<close>).  On \<open>[1,1,1,1,9,1,1,1]\<close> with
  length 2 the test at \<open>left = 3\<close> sees the sum 2 and the count 2, while the unmasked
  samples of the window \<open>[3, 5)\<close> have the sum 10.
\<close>

theorem tested_sums_scenario_B:
  "h_tested 2 (detector [[1,1,1,1,9,1,1,1]] [replicate 8 False] [] []) 0 ! 3 =
     (3, \<lparr>sm = 2, cnt = 2\<rparr>) \<and>
   window_sum (detector [[1,1,1,1,9,1,1,1]] [replicate 8 False] [] []) 0 3 2 = 10 \<and>
   window_count (detector [[1,1,1,1,9,1,1,1]] [replicate 8 False] [] []) 0 3 2 = 2"
  by code_simp

subsection \<open>Window coverage\<close>

text \<open>
  C3 states that a pass with \<^verbatim>\<open>length > 1\<close> newly flags a sample if and only if it lies in
  a window of that length, fully inside its line, whose unmasked mean exceeds the
  threshold, and that windows reaching past the end of the line are never tested.  The
  pass does neither.  On \<open>[5,0,0,3]\<close> with length 2 and threshold 3 no window inside the
  line exceeds the threshold (the means are 2.5, 0 and 1.5), yet indices 0, 1 and 3 are
  flagged, index 3 by the test at \<open>left = 3\<close>, whose window \<open>[3, 5)\<close> reaches past the
  end.  On \<open>[1,1,1,1,9,1,1,1]\<close> index 3 lies in the window \<open>[3, 5)\<close> with mean 5 and is
  not flagged.
\<close>

theorem window_coverage_scenarios:
  "mask_rows (horizontal_sum_threshold 2 3
      (detector [[5,0,0,3]] [replicate 4 False] [] [])) = [[True, True, False, True]] \<and>
   map (covered 2 3 (detector [[5,0,0,3]] [replicate 4 False] [] []) 0) [0..<4] =
     [False, False, False, False] \<and>
   map fst (h_tested 2 (detector [[5,0,0,3]] [replicate 4 False] [] []) 0) = [0, 1, 2, 3] \<and>
   mask_rows (horizontal_sum_threshold 2 3
      (detector [[1,1,1,1,9,1,1,1]] [replicate 8 False] [] [])) =
     [[False, False, False, False, True, True, False, False]] \<and>
   map (covered 2 3 (detector [[1,1,1,1,9,1,1,1]] [replicate 8 False] [] []) 0) [0..<8] =
     [False, False, False, True, True, True, False, False]"
  by code_simp

subsection \<open>Snapshot, commit and the independence of lines\<close>

text \<open>
  C9: a pass with \<^verbatim>\<open>length > 1\<close> reads the mask as it was before the pass and collects
  its flags in a pending copy.  The flags of a line (a row for the horizontal pass, a
  column for the vertical one) after the pass are those it had before together with the
  flags that the scan of this line raises from an empty pending mask, reading the samples
  and the mask of before the pass: flags raised during the pass never enter a running
  sum.  And the outcome for a line depends on that line only: when
  two detectors agree on row \<open>y\<close> (samples and mask), the masks after a horizontal pass
  agree on row \<open>y\<close>, and likewise for a column and the vertical pass.
\<close>

theorem line_independence:
  "(1 < len \<and> len \<le> int (width s) \<and> y < height s \<and> x < width s \<longrightarrow>
      (vis_mask (horizontal_sum_threshold len threshold s) y x \<longleftrightarrow>
         vis_mask s y x \<or> h_line (nat len) threshold s y (\<lambda>y x. False) y x)) \<and>
   (1 < len \<and> len \<le> int (height s) \<and> y < height s \<and> x < width s \<longrightarrow>
      (vis_mask (vertical_sum_threshold len threshold s) y x \<longleftrightarrow>
         vis_mask s y x \<or> v_line (nat len) threshold s x (\<lambda>y x. False) y x)) \<and>
   (width s1 = width s2 \<and> y < height s1 \<and> y < height s2 \<and>
    (\<forall>x<width s1. vis s1 y x = vis s2 y x \<and> vis_mask s1 y x = vis_mask s2 y x) \<longrightarrow>
      (\<forall>x<width s1. vis_mask (horizontal_sum_threshold len threshold s1) y x =
                    vis_mask (horizontal_sum_threshold len threshold s2) y x)) \<and>
   (height s1 = height s2 \<and> x < width s1 \<and> x < width s2 \<and>
    (\<forall>y<height s1. vis s1 y x = vis s2 y x \<and> vis_mask s1 y x = vis_mask s2 y x) \<longrightarrow>
      (\<forall>y<height s1. vis_mask (vertical_sum_threshold len threshold s1) y x =
                     vis_mask (vertical_sum_threshold len threshold s2) y x))"
proof (intro conjI impI allI)
  assume "1 < len \<and> len \<le> int (width s) \<and> y < height s \<and> x < width s"
  then show "vis_mask (horizontal_sum_threshold len threshold s) y x \<longleftrightarrow>
         vis_mask s y x \<or> h_line (nat len) threshold s y (\<lambda>y x. False) y x"
    by (intro horizontal_new_flags) simp_all
next
  assume "1 < len \<and> len \<le> int (height s) \<and> y < height s \<and> x < width s"
  then show "vis_mask (vertical_sum_threshold len threshold s) y x \<longleftrightarrow>
         vis_mask s y x \<or> v_line (nat len) threshold s x (\<lambda>y x. False) y x"
    by (intro vertical_new_flags) simp_all
next
  fix x'
  assume "width s1 = width s2 \<and> y < height s1 \<and> y < height s2 \<and>
    (\<forall>x<width s1. vis s1 y x = vis s2 y x \<and> vis_mask s1 y x = vis_mask s2 y x)"
    and "x' < width s1"
  then show "vis_mask (horizontal_sum_threshold len threshold s1) y x' =
             vis_mask (horizontal_sum_threshold len threshold s2) y x'"
    by (intro horizontal_agree) simp_all
next
  fix y'
  assume "height s1 = height s2 \<and> x < width s1 \<and> x < width s2 \<and>
    (\<forall>y<height s1. vis s1 y x = vis s2 y x \<and> vis_mask s1 y x = vis_mask s2 y x)"
    and "y' < height s1"
  then show "vis_mask (vertical_sum_threshold len threshold s1) y' x =
             vis_mask (vertical_sum_threshold len threshold s2) y' x"
    by (intro vertical_agree) simp_all
qed

text \<open>
  Two detectors with the same first row and the same fifth column, and different samples
  elsewhere.
\<close>

theorem line_independence_witness:
  "vis_mask (horizontal_sum_threshold 2 3
      (detector [[1,1,1,1,9,1,1,1], [0,0,0,0,2,0,0,0]] [replicate 8 False, replicate 8 False]
         [] [])) 0 5 =
   vis_mask (horizontal_sum_threshold 2 3
      (detector [[1,1,1,1,9,1,1,1], [7,7,7,7,2,7,7,7]] [replicate 8 False, replicate 8 False]
         [] [])) 0 5 \<and>
   vis_mask (vertical_sum_threshold 2 3
      (detector [[1,1,1,1,9,1,1,1], [0,0,0,0,2,0,0,0]] [replicate 8 False, replicate 8 False]
         [] [])) 1 4 =
   vis_mask (vertical_sum_threshold 2 3
      (detector [[1,1,1,1,9,1,1,1], [7,7,7,7,2,7,7,7]] [replicate 8 False, replicate 8 False]
         [] [])) 1 4 \<and>
   (vis_mask (horizontal_sum_threshold 2 3
      (detector [[1,1,1,1,9,1,1,1], [0,0,0,0,2,0,0,0]] [replicate 8 False, replicate 8 False]
         [] [])) 0 5 \<longleftrightarrow>
    h_line 2 3
      (detector [[1,1,1,1,9,1,1,1], [0,0,0,0,2,0,0,0]] [replicate 8 False, replicate 8 False]
         [] []) 0 (\<lambda>y x. False) 0 5)"
proof -
  let ?s1 = "detector [[1,1,1,1,9,1,1,1], [0,0,0,0,2,0,0,0]]
               [replicate 8 False, replicate 8 False] [] []"
  let ?s2 = "detector [[1,1,1,1,9,1,1,1], [7,7,7,7,2,7,7,7]]
               [replicate 8 False, replicate 8 False] [] []"
  have shape: "width ?s1 = 8" "width ?s2 = 8" "height ?s1 = 2" "height ?s2 = 2"
    by (simp_all add: detector_def)
  have row: "\<forall>x<width ?s1. vis ?s1 0 x = vis ?s2 0 x \<and> vis_mask ?s1 0 x = vis_mask ?s2 0 x"
    by (simp add: detector_def from_rows_def)
  have col: "\<forall>y<height ?s1. vis ?s1 y 4 = vis ?s2 y 4 \<and> vis_mask ?s1 y 4 = vis_mask ?s2 y 4"
    by (simp add: detector_def from_rows_def less_Suc_eq numeral_2_eq_2)
  have empty: "\<not> vis_mask ?s1 0 5"
    by (simp add: detector_def from_rows_def)
  note li = line_independence [where ?s1.0 = ?s1 and ?s2.0 = ?s2 and s = ?s1 and len = 2
      and threshold = 3]
  have a: "vis_mask (horizontal_sum_threshold 2 3 ?s1) 0 5 =
           vis_mask (horizontal_sum_threshold 2 3 ?s2) 0 5"
  proof (rule li [where y = 0 and x = 5, THEN conjunct2, THEN conjunct2, THEN conjunct1,
        rule_format])
    show "width ?s1 = width ?s2 \<and> 0 < height ?s1 \<and> 0 < height ?s2 \<and>
      (\<forall>x<width ?s1. vis ?s1 0 x = vis ?s2 0 x \<and> vis_mask ?s1 0 x = vis_mask ?s2 0 x)"
      using row by (simp add: shape)
    show "5 < width ?s1" by (simp add: shape)
  qed
  have b: "vis_mask (vertical_sum_threshold 2 3 ?s1) 1 4 =
           vis_mask (vertical_sum_threshold 2 3 ?s2) 1 4"
  proof (rule li [where y = 0 and x = 4, THEN conjunct2, THEN conjunct2, THEN conjunct2,
        rule_format])
    show "height ?s1 = height ?s2 \<and> 4 < width ?s1 \<and> 4 < width ?s2 \<and>
      (\<forall>y<height ?s1. vis ?s1 y 4 = vis ?s2 y 4 \<and> vis_mask ?s1 y 4 = vis_mask ?s2 y 4)"
      using col by (simp add: shape)
    show "1 < height ?s1" by (simp add: shape)
  qed
  have "vis_mask (horizontal_sum_threshold 2 3 ?s1) 0 5 \<longleftrightarrow>
          vis_mask ?s1 0 5 \<or> h_line (nat 2) 3 ?s1 0 (\<lambda>y x. False) 0 5"
    by (rule li [where y = 0 and x = 5, THEN conjunct1, rule_format]) (simp add: shape)
  with empty have c: "vis_mask (horizontal_sum_threshold 2 3 ?s1) 0 5 \<longleftrightarrow>
           h_line 2 3 ?s1 0 (\<lambda>y x. False) 0 5"
    by simp
  from a b c show ?thesis by blast
qed

end
